theory Spec2Isabelle
  imports Complex_Main "HOL-Library.Sublist"
begin

section \<open>Responsive SVG variations (nusvg.js): the breakpoint resolver and the attribute applier\<close>

text \<open>
  The development embeds the part of \<^verbatim>\<open>src/nusvg.js\<close> that decides which variation
  is applied at a measured width (\<^verbatim>\<open>process\<close>, \<^verbatim>\<open>applyContainerQuery\<close>,
  \<^verbatim>\<open>applyQuery\<close>) and the part that writes one variation into the host document
  (\<^verbatim>\<open>applyData\<close>, \<^verbatim>\<open>applyStyle\<close>, \<^verbatim>\<open>applyAttribute\<close>).

  Modelling decisions.
  \<^item> A JavaScript string is a list of code units below 256 (\<^typ>\<open>string\<close>).
  \<^item> A JavaScript number is \<open>NaN\<close> or a finite value; comparisons with \<open>NaN\<close> are false.
    Infinities and the rounding of integers beyond \<open>2^53\<close> are outside the model.
  \<^item> An object that the source walks with \<^verbatim>\<open>for ... in\<close> is the list of its
    (key, value) pairs in iteration order.
  \<^item> Attribute values are strings; a numeric \<^verbatim>\<open>x\<close> or \<^verbatim>\<open>y\<close> is given by the
    decimal text that string concatenation produces for it (the number \<open>0\<close> and the
    text \<open>0\<close> both end up as \<open>0\<close> in the translate value).
  \<^item> The host document is explicit state: which ids resolve, the style and attribute
    tables of every element, and the sequence of writes made so far.
  \<^item> The fields that \<^verbatim>\<open>process\<close> reads from the instance, \<^verbatim>\<open>this.queries\<close> and
    \<^verbatim>\<open>this.svgComposition.width\<close>, are arguments.
  \<^item> A failure of the source (reading a property of \<^verbatim>\<open>undefined\<close>) is the value
    \<open>Inl TypeError\<close>.
\<close>

subsection \<open>Numbers and their comparison\<close>

datatype jsnum = NaN | Num real

fun js_gt :: "jsnum \<Rightarrow> jsnum \<Rightarrow> bool" where
  "js_gt (Num a) (Num b) = (a > b)"
| "js_gt _ _ = False"

fun js_lt :: "jsnum \<Rightarrow> jsnum \<Rightarrow> bool" where
  "js_lt (Num a) (Num b) = (a < b)"
| "js_lt _ _ = False"

subsection \<open>\<^verbatim>\<open>String.prototype.substr\<close> and \<^verbatim>\<open>parseInt\<close>\<close>

definition substr :: "string \<Rightarrow> nat \<Rightarrow> string" where
  "substr s start = drop start s"

definition isWhiteSpace :: "char \<Rightarrow> bool" where
  "isWhiteSpace c = (c \<in> {CHR 0x09, CHR 0x0A, CHR 0x0B, CHR 0x0C, CHR 0x0D, CHR 0x20, CHR 0xA0})"

definition digitValue :: "char \<Rightarrow> nat option" where
  "digitValue c =
     (let n = (of_char c :: nat) in
      if 48 \<le> n \<and> n \<le> 57 then Some (n - 48)
      else if 97 \<le> n \<and> n \<le> 122 then Some (n - 87)
      else if 65 \<le> n \<and> n \<le> 90 then Some (n - 55)
      else None)"

definition isRadixDigit :: "nat \<Rightarrow> char \<Rightarrow> bool" where
  "isRadixDigit R c = (case digitValue c of None \<Rightarrow> False | Some v \<Rightarrow> v < R)"

definition mathInt :: "nat \<Rightarrow> string \<Rightarrow> nat" where
  "mathInt R Z = foldl (\<lambda>a c. a * R + the (digitValue c)) 0 Z"

text \<open>
  \<^verbatim>\<open>parseInt(string)\<close> with no radix: leading white space is skipped, one sign is read,
  a \<^verbatim>\<open>0x\<close> prefix selects radix 16, and the longest run of digits is converted.
  No digit at all gives \<open>NaN\<close>; nothing is ever thrown.
\<close>

definition parseInt :: "string \<Rightarrow> jsnum" where
  "parseInt s =
     (let S = dropWhile isWhiteSpace s;
          sign = (if S \<noteq> [] \<and> hd S = CHR ''-'' then (-1::int) else 1);
          S1 = (if S \<noteq> [] \<and> (hd S = CHR ''+'' \<or> hd S = CHR ''-'') then tl S else S);
          hex = (prefix ''0x'' S1 \<or> prefix ''0X'' S1);
          R = (if hex then 16 else 10);
          S2 = (if hex then drop 2 S1 else S1);
          Z = takeWhile (isRadixDigit R) S2
      in if Z = [] then NaN else Num (of_int (sign * int (mathInt R Z))))"

subsection \<open>The host document\<close>

text \<open>
  A write names the element id, the style property or attribute, and the value:
  \<^verbatim>\<open>element.style[name] = value\<close> and \<^verbatim>\<open>element.setAttribute(name, value)\<close>.
  \<^verbatim>\<open>getElementById\<close> returns a handle, here the id itself, or null.
\<close>

datatype effect = StyleWrite string string string | AttrWrite string string string

record dom =
  present :: "string set"
  style :: "string \<Rightarrow> string \<rightharpoonup> string"
  attribute :: "string \<Rightarrow> string \<rightharpoonup> string"
  writes :: "effect list"

definition getElementById :: "dom \<Rightarrow> string \<Rightarrow> string option" where
  "getElementById d el = (if el \<in> present d then Some el else None)"

definition applyAttribute :: "string \<Rightarrow> string \<Rightarrow> string option \<Rightarrow> dom \<Rightarrow> dom" where
  "applyAttribute name val element d =
     (case element of
        None \<Rightarrow> d
      | Some h \<Rightarrow> d\<lparr>attribute := (attribute d)(h := (attribute d h)(name \<mapsto> val)),
                   writes := writes d @ [AttrWrite h name val]\<rparr>)"

definition applyStyle :: "string \<Rightarrow> string \<Rightarrow> string option \<Rightarrow> dom \<Rightarrow> dom" where
  "applyStyle name val element d =
     (case element of
        None \<Rightarrow> d
      | Some h \<Rightarrow> d\<lparr>style := (style d)(h := (style d h)(name \<mapsto> val)),
                   writes := writes d @ [StyleWrite h name val]\<rparr>)"

subsection \<open>The transform expression (\<^verbatim>\<open>applyData\<close>, lines 165 to 171)\<close>

text \<open>The line terminators among the code units below 256: line feed and carriage return.\<close>

definition isLineTerminator :: "char \<Rightarrow> bool" where
  "isLineTerminator c = (c = CHR 0x0A \<or> c = CHR 0x0D)"

text \<open>
  The regular expression \<^verbatim>\<open>/translate\((.*)\)/\<close> tried at the head of a string: the text
  \<^verbatim>\<open>translate(\<close>, then the greedy \<^verbatim>\<open>.*\<close> runs to the end of the line and backs off to
  the last closing parenthesis of that line. The result is the captured group and
  the text after the match.
\<close>

definition matchHere :: "string \<Rightarrow> (string \<times> string) option" where
  "matchHere s =
     (if prefix ''translate('' s then
        (let body = drop 10 s;
             line = takeWhile (\<lambda>c. \<not> isLineTerminator c) body
         in if CHR '')'' \<in> set line then
              (let cap = rev (tl (dropWhile (\<lambda>c. c \<noteq> CHR '')'') (rev line)))
               in Some (cap, drop (Suc (length cap)) body))
            else None)
      else None)"

text \<open>
  The replacement text of \<^verbatim>\<open>String.prototype.replace\<close> is a template: \<^verbatim>\<open>$$\<close>,
  \<^verbatim>\<open>$&\<close>, the two context references and the references to the single capture group
  are expanded, everything else is copied.
\<close>

fun getSubstitution :: "string \<Rightarrow> string \<Rightarrow> string \<Rightarrow> string \<Rightarrow> string \<Rightarrow> string" where
  "getSubstitution matched pre post cap [] = []"
| "getSubstitution matched pre post cap [c] = [c]"
| "getSubstitution matched pre post cap (c # d # r) =
     (if c \<noteq> CHR ''$'' then c # getSubstitution matched pre post cap (d # r)
      else if d = CHR ''$'' then CHR ''$'' # getSubstitution matched pre post cap r
      else if d = CHR ''&'' then matched @ getSubstitution matched pre post cap r
      else if d = CHR 0x60 then pre @ getSubstitution matched pre post cap r
      else if d = CHR 0x27 then post @ getSubstitution matched pre post cap r
      else if d = CHR ''1'' then cap @ getSubstitution matched pre post cap r
      else if d = CHR ''0'' \<and> r \<noteq> [] \<and> hd r = CHR ''1''
        then cap @ getSubstitution matched pre post cap (tl r)
      else c # getSubstitution matched pre post cap (d # r))"

fun replaceFrom :: "string \<Rightarrow> string \<Rightarrow> string \<Rightarrow> string" where
  "replaceFrom pre [] repl = pre"
| "replaceFrom pre (c # cs) repl =
     (case matchHere (c # cs) of
        Some (cap, rest) \<Rightarrow>
          pre @ getSubstitution (take (length (c # cs) - length rest) (c # cs)) pre rest cap repl @ rest
      | None \<Rightarrow> replaceFrom (pre @ [c]) cs repl)"

definition replace :: "string \<Rightarrow> string \<Rightarrow> string" where
  "replace s repl = replaceFrom [] s repl"

fun indexFrom :: "nat \<Rightarrow> string \<Rightarrow> string \<Rightarrow> int" where
  "indexFrom i sub [] = (if sub = [] then int i else -1)"
| "indexFrom i sub (c # cs) = (if prefix sub (c # cs) then int i else indexFrom (Suc i) sub cs)"

definition indexOf :: "string \<Rightarrow> string \<Rightarrow> int" where
  "indexOf s sub = indexFrom 0 sub s"

record translateData =
  xval :: "string option"
  yval :: "string option"

definition coord :: "string option \<Rightarrow> string" where
  "coord v = (case v of None \<Rightarrow> ''0'' | Some s \<Rightarrow> if s \<noteq> [] then s else ''0'')"

definition translateValue :: "translateData \<Rightarrow> string option" where
  "translateValue td =
     (if xval td \<noteq> None \<or> yval td \<noteq> None
      then Some (''translate('' @ coord (xval td) @ '','' @ coord (yval td) @ '')'')
      else None)"

definition composeTransform :: "string \<Rightarrow> string option \<Rightarrow> string" where
  "composeTransform transformValue tv =
     (if transformValue \<noteq> [] then
        (case tv of
           Some t \<Rightarrow> if indexOf transformValue ''translate'' \<noteq> -1
                     then replace transformValue t
                     else transformValue @ '' '' @ t
         | None \<Rightarrow> transformValue)
      else (case tv of Some t \<Rightarrow> t | None \<Rightarrow> []))"

subsection \<open>\<^verbatim>\<open>applyData\<close>\<close>

type_synonym patch = "(string \<times> string) list"
type_synonym patchset = "(string \<times> patch) list"

fun attrStep :: "string option \<Rightarrow> string \<times> string \<Rightarrow> string \<times> translateData \<times> dom \<Rightarrow> string \<times> translateData \<times> dom" where
  "attrStep element (attr, attrValue) (transformValue, td, d) =
     (if attr = ''x'' then (transformValue, td\<lparr>xval := Some attrValue\<rparr>, d)
      else if attr = ''y'' then (transformValue, td\<lparr>yval := Some attrValue\<rparr>, d)
      else if attr = ''display'' then (transformValue, td, applyStyle ''display'' attrValue element d)
      else if attr = ''fill'' then (transformValue, td, applyStyle ''fill'' attrValue element d)
      else if attr = ''transform'' then (attrValue, td, d)
      else (transformValue, td, d))"

definition applyElement :: "string \<Rightarrow> patch \<Rightarrow> dom \<Rightarrow> dom" where
  "applyElement el elAttributes d =
     (let element = getElementById d el;
          (transformValue, td, d1) =
             fold (attrStep element) elAttributes ([], \<lparr>xval = None, yval = None\<rparr>, d);
          transformValue' = composeTransform transformValue (translateValue td)
      in if transformValue' \<noteq> [] then applyAttribute ''transform'' transformValue' element d1
         else d1)"

definition applyData :: "patchset \<Rightarrow> dom \<Rightarrow> dom" where
  "applyData queryData d = fold (\<lambda>(el, elAttributes). applyElement el elAttributes) queryData d"

subsection \<open>The resolver: \<^verbatim>\<open>process\<close>, \<^verbatim>\<open>applyContainerQuery\<close>, \<^verbatim>\<open>applyQuery\<close>\<close>

datatype error = TypeError

record variation =
  query :: string
  data :: patchset

record bounds =
  minv :: jsnum
  maxv :: jsnum

definition applyQuery :: "variation \<Rightarrow> variation option \<Rightarrow> dom \<Rightarrow> error + dom" where
  "applyQuery q defaultQuery d =
     (case defaultQuery of
        None \<Rightarrow> Inl TypeError
      | Some dq \<Rightarrow> Inr (applyData (data q) (applyData (data dq) d)))"

definition applyContainerQuery ::
  "bounds \<Rightarrow> variation \<Rightarrow> variation option \<Rightarrow> bool \<Rightarrow> jsnum \<Rightarrow> dom \<Rightarrow> error + dom" where
  "applyContainerQuery b q defaultQuery isLast width d =
     (if isLast then
        (if js_gt width (maxv b) then
           (case defaultQuery of None \<Rightarrow> Inl TypeError | Some dq \<Rightarrow> Inr (applyData (data dq) d))
         else Inr d)
      else
        (if js_gt width (minv b) \<and> js_lt width (maxv b) then applyQuery q defaultQuery d
         else Inr d))"

text \<open>The expression \<^verbatim>\<open>parseInt(query.query.substr(1))\<close>, which the source writes three times.\<close>

definition threshold :: "variation \<Rightarrow> jsnum" where
  "threshold q = parseInt (substr (query q) 1)"

text \<open>Lines 76 to 89: the bounds that the loop body computes for the entry at an index.\<close>

definition queryData :: "variation list \<Rightarrow> nat \<Rightarrow> bounds" where
  "queryData queries queryIndex =
     (let q = queries ! queryIndex in
      \<lparr>minv =
         (if query q = ''default'' \<or> queryIndex = 0 then Num 0
          else (let prevQueryObject = queries ! (queryIndex - 1) in
                if query prevQueryObject = ''default'' then Num 0
                else threshold (queries ! (queryIndex - 1)))),
       maxv = (if query q = ''default'' then Num 0 else threshold q)\<rparr>)"

definition processQuery :: "variation list \<Rightarrow> variation option \<Rightarrow> jsnum \<Rightarrow> nat \<Rightarrow> dom \<Rightarrow> error + dom" where
  "processQuery queries defaultQuery width queryIndex d =
     applyContainerQuery (queryData queries queryIndex) (queries ! queryIndex) defaultQuery False width d"

fun forEach :: "(nat \<Rightarrow> dom \<Rightarrow> error + dom) \<Rightarrow> nat list \<Rightarrow> dom \<Rightarrow> error + dom" where
  "forEach f [] d = Inr d"
| "forEach f (i # is) d = (case f i d of Inl e \<Rightarrow> Inl e | Inr d' \<Rightarrow> forEach f is d')"

definition defaultQueryOf :: "variation list \<Rightarrow> variation option" where
  "defaultQueryOf queries =
     (case filter (\<lambda>q. query q = ''default'') queries of [] \<Rightarrow> None | dq # _ \<Rightarrow> Some dq)"

definition process :: "variation list \<Rightarrow> jsnum \<Rightarrow> dom \<Rightarrow> error + dom" where
  "process queries width d =
     (let defaultQuery = defaultQueryOf queries in
      case forEach (processQuery queries defaultQuery width) [0..<length queries] d of
        Inl e \<Rightarrow> Inl e
      | Inr d1 \<Rightarrow>
          if queries = [] then Inl TypeError
          else (let lastQuery = last queries in
                applyContainerQuery \<lparr>minv = NaN, maxv = threshold lastQuery\<rparr>
                  lastQuery defaultQuery True width d1))"

text \<open>
  Successive cycles, one for each measured width, as \<^verbatim>\<open>onResize\<close> runs them: each
  cycle starts from the document the cycle before it left.
\<close>

fun cycles :: "variation list \<Rightarrow> jsnum list \<Rightarrow> dom \<Rightarrow> error + dom" where
  "cycles queries [] d = Inr d"
| "cycles queries (width # widths) d =
     (case process queries width d of Inl e \<Rightarrow> Inl e | Inr d' \<Rightarrow> cycles queries widths d')"

subsection \<open>Observing a resolution cycle\<close>

definition writesOf :: "error + dom \<Rightarrow> effect list option" where
  "writesOf r = (case r of Inl e \<Rightarrow> None | Inr d \<Rightarrow> Some (writes d))"

definition styleOf :: "error + dom \<Rightarrow> string \<Rightarrow> string \<Rightarrow> string option" where
  "styleOf r el name = (case r of Inl e \<Rightarrow> None | Inr d \<Rightarrow> style d el name)"

definition attributeOf :: "error + dom \<Rightarrow> string \<Rightarrow> string \<Rightarrow> string option" where
  "attributeOf r el name = (case r of Inl e \<Rightarrow> None | Inr d \<Rightarrow> attribute d el name)"

definition emptyDom :: "string set \<Rightarrow> dom" where
  "emptyDom ids = \<lparr>present = ids, style = (\<lambda>el. Map.empty), attribute = (\<lambda>el. Map.empty), writes = []\<rparr>"

text \<open>The condition of line 114 for the entry at an index: the width lies in its bounds.\<close>

definition inRange :: "variation list \<Rightarrow> jsnum \<Rightarrow> nat \<Rightarrow> bool" where
  "inRange qs w i = (js_gt w (minv (queryData qs i)) \<and> js_lt w (maxv (queryData qs i)))"

subsection \<open>Shapes of a variation list\<close>

text \<open>
  Two properties of a list that the claims about a whole cycle refer to. The
  thresholds of the entries other than the default are in ascending order (the
  specification asks the caller to supply them sorted). A default entry does not sit
  between two other entries: an entry that directly follows a default entry has
  nothing but default entries before it.
\<close>

fun js_le :: "jsnum \<Rightarrow> jsnum \<Rightarrow> bool" where
  "js_le (Num a) (Num b) = (a \<le> b)"
| "js_le _ _ = False"

definition ascending :: "variation list \<Rightarrow> bool" where
  "ascending qs =
     (\<forall>j \<in> set [0..<length qs]. \<forall>i \<in> set [0..<j].
        query (qs ! i) \<noteq> ''default'' \<and> query (qs ! j) \<noteq> ''default''
          \<longrightarrow> js_le (threshold (qs ! i)) (threshold (qs ! j)))"

definition defaultNotBetween :: "variation list \<Rightarrow> bool" where
  "defaultNotBetween qs =
     (\<forall>j \<in> set [0..<length qs].
        0 < j \<and> query (qs ! (j - 1)) = ''default'' \<and> query (qs ! j) \<noteq> ''default''
          \<longrightarrow> (\<forall>k \<in> set [0..<j]. query (qs ! k) = ''default''))"

text \<open>
  A text from which \<^verbatim>\<open>parseInt\<close> reads no number: after the white space and one
  sign, nothing is left or the next character is not a decimal digit.
\<close>

definition nonNumeric :: "string \<Rightarrow> bool" where
  "nonNumeric s =
     (let S = dropWhile isWhiteSpace s;
          S1 = (if S \<noteq> [] \<and> (hd S = CHR ''+'' \<or> hd S = CHR ''-'') then tl S else S)
      in S1 = [] \<or> \<not> isRadixDigit 10 (hd S1))"

subsection \<open>Predicates used to state the claims about the applier and the composer\<close>

text \<open>The element a write goes to.\<close>

fun target :: "effect \<Rightarrow> string" where
  "target (StyleWrite h name val) = h"
| "target (AttrWrite h name val) = h"

text \<open>
  From one document to a later one: the same ids resolve, the writes made in between
  all go to ids in \<open>P\<close>, and the tables of every id outside \<open>P\<close> are as before.
\<close>

definition onlyPresent :: "string set \<Rightarrow> dom \<Rightarrow> dom \<Rightarrow> bool" where
  "onlyPresent P d d' =
     (present d' = present d
      \<and> (\<exists>ws. writes d' = writes d @ ws \<and> (\<forall>w \<in> set ws. target w \<in> P))
      \<and> (\<forall>el. el \<notin> P \<longrightarrow> style d' el = style d el \<and> attribute d' el = attribute d el))"

text \<open>
  The writes that lead from one document to a later one, and the value that the last
  of a sequence of writes gives to a style property or to an attribute of an element,
  if any of them names it.
\<close>

definition newWrites :: "dom \<Rightarrow> dom \<Rightarrow> effect list" where
  "newWrites d d' = drop (length (writes d)) (writes d')"

fun lastStyle :: "effect list \<Rightarrow> string \<Rightarrow> string \<Rightarrow> string option" where
  "lastStyle [] el name = None"
| "lastStyle (StyleWrite h n v # ws) el name =
     (case lastStyle ws el name of
        Some v' \<Rightarrow> Some v'
      | None \<Rightarrow> if h = el \<and> n = name then Some v else None)"
| "lastStyle (AttrWrite h n v # ws) el name = lastStyle ws el name"

fun lastAttribute :: "effect list \<Rightarrow> string \<Rightarrow> string \<Rightarrow> string option" where
  "lastAttribute [] el name = None"
| "lastAttribute (AttrWrite h n v # ws) el name =
     (case lastAttribute ws el name of
        Some v' \<Rightarrow> Some v'
      | None \<Rightarrow> if h = el \<and> n = name then Some v else None)"
| "lastAttribute (StyleWrite h n v # ws) el name = lastAttribute ws el name"

text \<open>
  The tables of the later document are those of the earlier one with the writes made in
  between laid over them: a name the writes set has its last written value, every
  other name has the value it had.
\<close>

definition tracks :: "dom \<Rightarrow> dom \<Rightarrow> bool" where
  "tracks d d' =
     (\<exists>ws. writes d' = writes d @ ws
        \<and> (\<forall>el name. style d' el name =
              (case lastStyle ws el name of None \<Rightarrow> style d el name | Some v \<Rightarrow> Some v))
        \<and> (\<forall>el name. attribute d' el name =
              (case lastAttribute ws el name of None \<Rightarrow> attribute d el name | Some v \<Rightarrow> Some v)))"

text \<open>An element handle that is null or stands for an id in \<open>P\<close>.\<close>

definition resolved :: "string set \<Rightarrow> string option \<Rightarrow> bool" where
  "resolved P element = (case element of None \<Rightarrow> True | Some h \<Rightarrow> h \<in> P)"



subsection \<open>Example lists\<close>

definition redBlue :: "variation list" where
  "redBlue = [\<lparr>query = ''default'', data = [(''a'', [(''fill'', ''red'')])]\<rparr>,
              \<lparr>query = ''>400'', data = [(''a'', [(''fill'', ''blue'')])]\<rparr>]"

definition overlapping :: "variation list" where
  "overlapping = [\<lparr>query = ''>300'', data = [(''a'', [(''fill'', ''blue'')])]\<rparr>,
                  \<lparr>query = ''default'', data = [(''a'', [(''fill'', ''red'')])]\<rparr>,
                  \<lparr>query = ''>500'', data = [(''a'', [(''fill'', ''green'')])]\<rparr>]"

definition threeStep :: "variation list" where
  "threeStep = [\<lparr>query = ''default'', data = [(''a'', [(''fill'', ''red'')])]\<rparr>,
                \<lparr>query = ''>400'', data = [(''a'', [(''fill'', ''blue'')])]\<rparr>,
                \<lparr>query = ''>800'', data = [(''a'', [(''fill'', ''green'')])]\<rparr>]"

definition malformed :: "variation list" where
  "malformed = [\<lparr>query = ''default'', data = [(''a'', [(''fill'', ''red'')])]\<rparr>,
                \<lparr>query = ''>abc'', data = [(''a'', [(''fill'', ''blue'')])]\<rparr>]"

text \<open>
  A list whose entry \<open>>400\<close> sets a display value and a coordinate that the default
  does not name, and the document that a cycle at width 300 leaves when it starts from
  the empty document.
\<close>

definition lingering :: "variation list" where
  "lingering = [\<lparr>query = ''default'', data = [(''a'', [(''fill'', ''red'')])]\<rparr>,
                \<lparr>query = ''>400'',
                 data = [(''a'', [(''fill'', ''blue''), (''display'', ''none''), (''x'', ''7'')])]\<rparr>]"

definition afterNarrow :: dom where
  "afterNarrow = applyData (data (lingering ! 1)) (applyData (data (lingering ! 0)) (emptyDom {''a''}))"

definition ghostPatch :: patchset where
  "ghostPatch = [(''ghost'', [(''fill'', ''red''), (''x'', ''5'')]), (''a'', [(''fill'', ''blue'')])]"

section \<open>Lemmas about the resolver\<close>

lemmas parseInt_eval = threshold_def parseInt_def isWhiteSpace_def isRadixDigit_def digitValue_def
  mathInt_def substr_def

lemmas apply_eval = applyData_def applyElement_def getElementById_def
  applyStyle_def applyAttribute_def composeTransform_def translateValue_def coord_def

lemma threshold_default: "query q = ''default'' \<Longrightarrow> threshold q = NaN"
  by (simp add: threshold_def parseInt_def isWhiteSpace_def isRadixDigit_def digitValue_def substr_def)

lemma js_gt_NaN [simp]: "js_gt w NaN = False"
  by (cases w) simp_all

lemma js_lt_NaN [simp]: "js_lt w NaN = False"
  by (cases w) simp_all

lemma not_gt_and_lt: "\<not> (js_gt w b \<and> js_lt w b)"
  by (cases w; cases b) auto

lemma forEach_id: "(\<And>i. i \<in> set is \<Longrightarrow> f i d = Inr d) \<Longrightarrow> forEach f is d = Inr d"
  by (induction "is") auto

lemma forEach_append:
  "forEach f (xs @ ys) d = (case forEach f xs d of Inl e \<Rightarrow> Inl e | Inr d' \<Rightarrow> forEach f ys d')"
  by (induction xs arbitrary: d) (auto split: sum.splits)

lemma processQuery_step:
  "processQuery qs (Some dq) w i d =
     (if inRange qs w i then Inr (applyData (data (qs ! i)) (applyData (data dq) d)) else Inr d)"
  by (simp add: processQuery_def applyContainerQuery_def applyQuery_def inRange_def)

lemma processQuery_out: "\<not> inRange qs w i \<Longrightarrow> processQuery qs dq w i d = Inr d"
  by (auto simp: processQuery_def applyContainerQuery_def inRange_def)

lemma maxv_queryData:
  "maxv (queryData qs i) = (if query (qs ! i) = ''default'' then Num 0 else threshold (qs ! i))"
  by (simp add: queryData_def Let_def)

lemma minv_queryData:
  "minv (queryData qs i) =
     (if query (qs ! i) = ''default'' \<or> i = 0 \<or> query (qs ! (i - 1)) = ''default'' then Num 0
      else threshold (qs ! (i - 1)))"
  by (simp add: queryData_def Let_def)

lemma inRange_default: "query (qs ! i) = ''default'' \<Longrightarrow> \<not> inRange qs w i"
  by (simp add: inRange_def maxv_queryData minv_queryData not_gt_and_lt)

lemma inRange_lt: "inRange qs w i \<Longrightarrow> js_lt w (threshold (qs ! i))"
  using inRange_default [of qs i w] by (cases "query (qs ! i) = ''default''") (simp_all add: inRange_def maxv_queryData)

lemma ascendingD:
  assumes asc: "ascending qs" and jn: "j < length qs" and ij: "i < j"
    and ndi: "query (qs ! i) \<noteq> ''default''" and ndj: "query (qs ! j) \<noteq> ''default''"
  shows "js_le (threshold (qs ! i)) (threshold (qs ! j))"
proof -
  have j: "j \<in> set [0..<length qs]" using jn by simp
  have i: "i \<in> set [0..<j]" using ij by simp
  from asc have "\<forall>j \<in> set [0..<length qs]. \<forall>i \<in> set [0..<j].
        query (qs ! i) \<noteq> ''default'' \<and> query (qs ! j) \<noteq> ''default''
          \<longrightarrow> js_le (threshold (qs ! i)) (threshold (qs ! j))"
    by (simp only: ascending_def)
  with j i ndi ndj show ?thesis by blast
qed

lemma defaultNotBetweenD:
  assumes dnb: "defaultNotBetween qs" and jn: "j < length qs" and j0: "0 < j"
    and prev: "query (qs ! (j - 1)) = ''default''" and ndj: "query (qs ! j) \<noteq> ''default''"
    and kj: "k < j"
  shows "query (qs ! k) = ''default''"
proof -
  have j: "j \<in> set [0..<length qs]" using jn by simp
  have k: "k \<in> set [0..<j]" using kj by simp
  from dnb have "\<forall>j \<in> set [0..<length qs].
        0 < j \<and> query (qs ! (j - 1)) = ''default'' \<and> query (qs ! j) \<noteq> ''default''
          \<longrightarrow> (\<forall>k \<in> set [0..<j]. query (qs ! k) = ''default'')"
    by (simp only: defaultNotBetween_def)
  with j k j0 prev ndj show ?thesis by blast
qed

lemma js_lt_gt_le: "js_lt w a \<Longrightarrow> js_gt w b \<Longrightarrow> js_le a b \<Longrightarrow> False"
  by (cases w; cases a; cases b) simp_all

lemma js_lt_gt_same: "js_lt w a \<Longrightarrow> js_gt w a \<Longrightarrow> False"
  by (cases w; cases a) simp_all

lemma inRange_unique:
  assumes asc: "ascending qs" and dnb: "defaultNotBetween qs"
    and i: "inRange qs w i" and j: "inRange qs w j" and ij: "i < j" and jn: "j < length qs"
  shows False
proof -
  have ndi: "query (qs ! i) \<noteq> ''default''"
    using i inRange_default by blast
  have ndj: "query (qs ! j) \<noteq> ''default''"
    using j inRange_default by blast
  have wi: "js_lt w (threshold (qs ! i))" using i by (rule inRange_lt)
  have j0: "0 < j" using ij by simp
  show False
  proof (cases "query (qs ! (j - 1)) = ''default''")
    case True
    have "query (qs ! i) = ''default''"
      using defaultNotBetweenD [OF dnb jn j0 True ndj ij] .
    with ndi show False by simp
  next
    case prev: False
    have gj: "js_gt w (threshold (qs ! (j - 1)))"
      using j j0 ndj prev by (simp add: inRange_def minv_queryData)
    show False
    proof (cases "i = j - 1")
      case True
      with wi gj show False using js_lt_gt_same by simp
    next
      case False
      with ij have lt: "i < j - 1" by simp
      have jn': "j - 1 < length qs" using jn by simp
      have "js_le (threshold (qs ! i)) (threshold (qs ! (j - 1)))"
        using ascendingD [OF asc jn' lt ndi prev] .
      with wi gj show False using js_lt_gt_le by blast
    qed
  qed
qed

lemma inRange_only:
  assumes asc: "ascending qs" and dnb: "defaultNotBetween qs"
    and i: "i < length qs" and m: "inRange qs w i" and k: "k < length qs" and ki: "k \<noteq> i"
  shows "\<not> inRange qs w k"
proof
  assume mk: "inRange qs w k"
  from ki consider "k < i" | "i < k" by linarith
  then show False
  proof cases
    case 1
    then show False using inRange_unique [OF asc dnb mk m _ i] by simp
  next
    case 2
    then show False using inRange_unique [OF asc dnb m mk _ k] by simp
  qed
qed

lemma forEach_none:
  assumes "\<And>i. i \<in> set is \<Longrightarrow> \<not> inRange qs w i"
  shows "forEach (processQuery qs dq w) is d = Inr d"
  using assms by (intro forEach_id) (simp add: processQuery_out)

lemma forEach_one:
  assumes i: "i < n" and m: "inRange qs w i"
    and u: "\<And>k. k < n \<Longrightarrow> k \<noteq> i \<Longrightarrow> \<not> inRange qs w k"
  shows "forEach (processQuery qs (Some dq) w) [0..<n] d
           = Inr (applyData (data (qs ! i)) (applyData (data dq) d))"
proof -
  have split: "[0..<n] = [0..<i] @ i # [Suc i..<n]"
  proof -
    have "[0..<n] = [0..<i] @ [i..<n]"
      using i upt_add_eq_append [of 0 i "n - i"] by simp
    then show ?thesis using i by (simp add: upt_conv_Cons)
  qed
  have a: "forEach (processQuery qs (Some dq) w) [0..<i] d = Inr d"
    using i u by (intro forEach_none) auto
  have b: "\<And>d'. forEach (processQuery qs (Some dq) w) [Suc i..<n] d' = Inr d'"
    using u by (intro forEach_none) auto
  show ?thesis
    by (simp add: split forEach_append a b processQuery_step m)
qed


lemma defaultQueryOf_Some:
  "defaultQueryOf qs = Some dq \<Longrightarrow> qs \<noteq> [] \<and> dq \<in> set qs \<and> query dq = ''default''"
proof -
  assume a: "defaultQueryOf qs = Some dq"
  then obtain r where f: "filter (\<lambda>q. query q = ''default'') qs = dq # r"
    by (auto simp: defaultQueryOf_def split: list.splits)
  have "dq \<in> set (filter (\<lambda>q. query q = ''default'') qs)"
    by (simp only: f list.set_intros)
  then show ?thesis by auto
qed

lemma defaultQueryOf_ex:
  "q \<in> set qs \<Longrightarrow> query q = ''default'' \<Longrightarrow> \<exists>dq. defaultQueryOf qs = Some dq"
proof -
  assume "q \<in> set qs" and "query q = ''default''"
  then have "q \<in> set (filter (\<lambda>q. query q = ''default'') qs)" by simp
  then have "filter (\<lambda>q. query q = ''default'') qs \<noteq> []" by (metis empty_iff list.set(1))
  then show ?thesis by (simp add: defaultQueryOf_def split: list.splits)
qed

lemma last_step:
  "applyContainerQuery b q (Some dq) True w d =
     (if js_gt w (maxv b) then Inr (applyData (data dq) d) else Inr d)"
  by (simp add: applyContainerQuery_def)

lemma process_unfold:
  "qs \<noteq> [] \<Longrightarrow> process qs w d =
     (case forEach (processQuery qs (defaultQueryOf qs) w) [0..<length qs] d of
        Inl e \<Rightarrow> Inl e
      | Inr d1 \<Rightarrow> applyContainerQuery \<lparr>minv = NaN, maxv = threshold (last qs)\<rparr>
                    (last qs) (defaultQueryOf qs) True w d1)"
  by (simp add: process_def Let_def split: sum.splits)

lemma process_gap:
  assumes ne: "qs \<noteq> []" and none: "\<And>i. i < length qs \<Longrightarrow> \<not> inRange qs w i"
    and le: "\<not> js_gt w (threshold (last qs))"
  shows "process qs w d = Inr d"
proof -
  have "forEach (processQuery qs (defaultQueryOf qs) w) [0..<length qs] d = Inr d"
    using none by (intro forEach_none) simp
  then show ?thesis using ne le by (simp add: process_unfold applyContainerQuery_def)
qed

lemma process_above:
  assumes dq: "defaultQueryOf qs = Some dq" and none: "\<And>i. i < length qs \<Longrightarrow> \<not> inRange qs w i"
    and gt: "js_gt w (threshold (last qs))"
  shows "process qs w d = Inr (applyData (data dq) d)"
proof -
  have ne: "qs \<noteq> []" using dq defaultQueryOf_Some by blast
  have "forEach (processQuery qs (Some dq) w) [0..<length qs] d = Inr d"
    using none by (intro forEach_none) simp
  then show ?thesis using ne gt dq by (simp add: process_unfold last_step)
qed

lemma threshold_Num_not_default: "js_gt w (threshold q) \<Longrightarrow> query q \<noteq> ''default''"
  using threshold_default [of q] by auto

lemma inRange_not_above_last:
  assumes asc: "ascending qs" and i: "i < length qs" and m: "inRange qs w i"
  shows "\<not> js_gt w (threshold (last qs))"
proof
  assume gt: "js_gt w (threshold (last qs))"
  have ne: "qs \<noteq> []" using i by auto
  have l: "last qs = qs ! (length qs - 1)" using ne by (simp add: last_conv_nth)
  have ndl: "query (qs ! (length qs - 1)) \<noteq> ''default''"
    using gt l threshold_Num_not_default by metis
  have ndi: "query (qs ! i) \<noteq> ''default''" using m inRange_default by blast
  have wi: "js_lt w (threshold (qs ! i))" using m by (rule inRange_lt)
  show False
  proof (cases "i = length qs - 1")
    case True
    with wi gt l show False using js_lt_gt_same by metis
  next
    case False
    with i have lt: "i < length qs - 1" by simp
    have n1: "length qs - 1 < length qs" using i by simp
    have "js_le (threshold (qs ! i)) (threshold (qs ! (length qs - 1)))"
      using ascendingD [OF asc n1 lt ndi ndl] .
    with wi gt l show False using js_lt_gt_le by metis
  qed
qed

lemma process_matched:
  assumes dq: "defaultQueryOf qs = Some dq" and asc: "ascending qs" and dnb: "defaultNotBetween qs"
    and i: "i < length qs" and m: "inRange qs w i"
  shows "process qs w d = Inr (applyData (data (qs ! i)) (applyData (data dq) d))"
proof -
  have ne: "qs \<noteq> []" using i by auto
  have u: "\<And>k. k < length qs \<Longrightarrow> k \<noteq> i \<Longrightarrow> \<not> inRange qs w k"
  proof
    fix k assume k: "k < length qs" and ki: "k \<noteq> i" and mk: "inRange qs w k"
    from ki consider "k < i" | "i < k" by linarith
    then show False
    proof cases
      case 1
      then show False using inRange_unique [OF asc dnb mk m _ i] by simp
    next
      case 2
      then show False using inRange_unique [OF asc dnb m mk _ k] by simp
    qed
  qed
  have f: "forEach (processQuery qs (Some dq) w) [0..<length qs] d
             = Inr (applyData (data (qs ! i)) (applyData (data dq) d))"
    using i m u by (rule forEach_one)
  have "\<not> js_gt w (threshold (last qs))"
    using asc i m by (rule inRange_not_above_last)
  then show ?thesis using ne dq f by (simp add: process_unfold last_step)
qed

lemma forEach_total:
  "(\<And>i d. \<exists>d'. f i d = Inr d') \<Longrightarrow> \<exists>d'. forEach f is d = Inr d'"
proof (induction "is" arbitrary: d)
  case Nil
  then show ?case by simp
next
  case (Cons i "is")
  obtain d1 where "f i d = Inr d1" using Cons.prems by blast
  moreover obtain d2 where "forEach f is d1 = Inr d2" using Cons.IH Cons.prems by blast
  ultimately show ?case by simp
qed

lemma parseInt_nonNumeric:
  assumes "nonNumeric s"
  shows "parseInt s = NaN"
proof -
  define S where "S = dropWhile isWhiteSpace s"
  define S1 where "S1 = (if S \<noteq> [] \<and> (hd S = CHR ''+'' \<or> hd S = CHR ''-'') then tl S else S)"
  from assms have n: "S1 = [] \<or> \<not> isRadixDigit 10 (hd S1)"
    by (simp only: nonNumeric_def Let_def S_def S1_def)
  have zero: "isRadixDigit 10 (CHR ''0'')"
    by (simp add: isRadixDigit_def digitValue_def)
  have nohex: "(prefix ''0x'' S1 \<or> prefix ''0X'' S1) = False"
    using n zero by (cases S1) auto
  have tw: "takeWhile (isRadixDigit 10) S1 = []"
    using n by (cases S1) auto
  have "parseInt s =
      (let sign = (if S \<noteq> [] \<and> hd S = CHR ''-'' then (-1::int) else 1);
           hex = (prefix ''0x'' S1 \<or> prefix ''0X'' S1);
           R = (if hex then 16 else 10);
           S2 = (if hex then drop 2 S1 else S1);
           Z = takeWhile (isRadixDigit R) S2
       in if Z = [] then NaN else Num (of_int (sign * int (mathInt R Z))))"
    by (simp only: parseInt_def Let_def S_def S1_def)
  also have "\<dots> = NaN"
    by (simp only: Let_def nohex if_False tw if_True refl)
  finally show ?thesis .
qed

lemma threshold_nonNumeric: "nonNumeric (substr (query q) 1) \<Longrightarrow> threshold q = NaN"
  by (simp add: threshold_def parseInt_nonNumeric)

subsection \<open>The example lists, evaluated\<close>

lemma threshold_300: "threshold \<lparr>query = ''>300'', data = x\<rparr> = Num 300"
  by (simp add: parseInt_eval)
lemma threshold_400: "threshold \<lparr>query = ''>400'', data = x\<rparr> = Num 400"
  by (simp add: parseInt_eval)
lemma threshold_500: "threshold \<lparr>query = ''>500'', data = x\<rparr> = Num 500"
  by (simp add: parseInt_eval)
lemma threshold_800: "threshold \<lparr>query = ''>800'', data = x\<rparr> = Num 800"
  by (simp add: parseInt_eval)
lemma threshold_abc: "threshold \<lparr>query = ''>abc'', data = x\<rparr> = NaN"
  by (simp add: parseInt_eval)
lemma threshold_dflt: "threshold \<lparr>query = ''default'', data = x\<rparr> = NaN"
  by (simp add: threshold_default)

lemma nonNumeric_abc: "nonNumeric (substr ''>abc'' 1)"
  by (simp add: nonNumeric_def substr_def isWhiteSpace_def isRadixDigit_def digitValue_def)

lemmas thresholds = threshold_300 threshold_400 threshold_500 threshold_800 threshold_abc threshold_dflt

lemmas resolver_eval = process_def processQuery_def queryData_def defaultQueryOf_def
  applyContainerQuery_def applyQuery_def thresholds

lemma ascending_threeStep: "ascending threeStep"
  by (auto simp: ascending_def threeStep_def thresholds less_Suc_eq)

lemma defaultNotBetween_threeStep: "defaultNotBetween threeStep"
  by (auto simp: defaultNotBetween_def threeStep_def less_Suc_eq)

lemma defaultQueryOf_threeStep: "defaultQueryOf threeStep = Some (threeStep ! 0)"
  by (simp add: defaultQueryOf_def threeStep_def)

section \<open>Lemmas about the applier\<close>

lemma onlyPresent_refl: "onlyPresent P d d"
  by (simp add: onlyPresent_def)

lemma onlyPresent_trans:
  assumes "onlyPresent P d1 d2" and "onlyPresent P d2 d3"
  shows "onlyPresent P d1 d3"
proof -
  from assms(1) obtain ws1 where w1: "writes d2 = writes d1 @ ws1" "\<forall>w \<in> set ws1. target w \<in> P"
    by (auto simp: onlyPresent_def)
  from assms(2) obtain ws2 where w2: "writes d3 = writes d2 @ ws2" "\<forall>w \<in> set ws2. target w \<in> P"
    by (auto simp: onlyPresent_def)
  have "writes d3 = writes d1 @ (ws1 @ ws2) \<and> (\<forall>w \<in> set (ws1 @ ws2). target w \<in> P)"
    using w1 w2 by auto
  then have "\<exists>ws. writes d3 = writes d1 @ ws \<and> (\<forall>w \<in> set ws. target w \<in> P)" by blast
  then show ?thesis using assms by (simp add: onlyPresent_def)
qed

lemma resolved_getElementById: "resolved (present d) (getElementById d el)"
  by (simp add: resolved_def getElementById_def)

lemma applyStyle_onlyPresent: "resolved P element \<Longrightarrow> onlyPresent P d (applyStyle name val element d)"
  by (cases element) (simp_all add: applyStyle_def onlyPresent_def resolved_def)

lemma applyAttribute_onlyPresent:
  "resolved P element \<Longrightarrow> onlyPresent P d (applyAttribute name val element d)"
  by (cases element) (simp_all add: applyAttribute_def onlyPresent_def resolved_def)

lemma attrStep_onlyPresent:
  assumes "resolved P element"
  shows "onlyPresent P (snd (snd acc)) (snd (snd (attrStep element a acc)))"
proof -
  obtain tv td d where acc: "acc = (tv, td, d)" by (cases acc)
  obtain attr val where a: "a = (attr, val)" by (cases a)
  show ?thesis
    using assms by (simp add: acc a applyStyle_onlyPresent onlyPresent_refl)
qed

lemma fold_attrStep_onlyPresent:
  assumes "resolved P element"
  shows "onlyPresent P (snd (snd acc)) (snd (snd (fold (attrStep element) attrs acc)))"
proof (induction attrs arbitrary: acc)
  case Nil
  then show ?case by (simp add: onlyPresent_refl)
next
  case (Cons a attrs)
  have "onlyPresent P (snd (snd acc)) (snd (snd (attrStep element a acc)))"
    using assms by (rule attrStep_onlyPresent)
  moreover have "onlyPresent P (snd (snd (attrStep element a acc)))
          (snd (snd (fold (attrStep element) attrs (attrStep element a acc))))"
    by (rule Cons.IH)
  ultimately show ?case using onlyPresent_trans by simp
qed

lemma applyElement_alt:
  "applyElement el attrs d =
     (let element = getElementById d el;
          r = fold (attrStep element) attrs ([], \<lparr>xval = None, yval = None\<rparr>, d);
          tv = composeTransform (fst r) (translateValue (fst (snd r)))
      in if tv \<noteq> [] then applyAttribute ''transform'' tv element (snd (snd r)) else snd (snd r))"
  by (simp add: applyElement_def Let_def split: prod.splits)

lemma applyElement_onlyPresent: "onlyPresent (present d) d (applyElement el attrs d)"
proof -
  let ?e = "getElementById d el"
  let ?r = "fold (attrStep ?e) attrs ([], \<lparr>xval = None, yval = None\<rparr>, d)"
  have r: "resolved (present d) ?e" by (rule resolved_getElementById)
  have f: "onlyPresent (present d) d (snd (snd ?r))"
    using fold_attrStep_onlyPresent [OF r, of "([], \<lparr>xval = None, yval = None\<rparr>, d)" attrs] by simp
  have "onlyPresent (present d) (snd (snd ?r)) (applyAttribute ''transform'' tv ?e (snd (snd ?r)))" for tv
    using r by (rule applyAttribute_onlyPresent)
  with f have "onlyPresent (present d) d (applyAttribute ''transform'' tv ?e (snd (snd ?r)))" for tv
    using onlyPresent_trans by blast
  with f show ?thesis by (simp add: applyElement_alt Let_def)
qed

lemma applyData_Cons: "applyData ((el, attrs) # pd) d = applyData pd (applyElement el attrs d)"
  by (simp add: applyData_def)

lemma applyData_onlyPresent: "onlyPresent (present d) d (applyData pd d)"
proof (induction pd arbitrary: d)
  case Nil
  then show ?case by (simp add: applyData_def onlyPresent_refl)
next
  case (Cons p pd)
  obtain el attrs where p: "p = (el, attrs)" by (cases p)
  let ?d1 = "applyElement el attrs d"
  have s: "onlyPresent (present d) d ?d1" by (rule applyElement_onlyPresent)
  then have "present ?d1 = present d" by (simp add: onlyPresent_def)
  then have "onlyPresent (present d) ?d1 (applyData pd ?d1)" using Cons.IH [of ?d1] by simp
  with s have "onlyPresent (present d) d (applyData pd ?d1)" by (rule onlyPresent_trans)
  then show ?case by (simp add: p applyData_Cons)
qed

lemma fold_attrStep_None: "snd (snd (fold (attrStep None) attrs acc)) = snd (snd acc)"
proof (induction attrs arbitrary: acc)
  case Nil
  then show ?case by simp
next
  case (Cons a attrs)
  obtain tv td d where acc: "acc = (tv, td, d)" by (cases acc)
  obtain attr val where a: "a = (attr, val)" by (cases a)
  have "snd (snd (attrStep None a acc)) = snd (snd acc)"
    by (simp add: acc a applyStyle_def)
  then show ?case using Cons.IH by simp
qed

lemma applyElement_missing: "el \<notin> present d \<Longrightarrow> applyElement el attrs d = d"
  by (simp add: applyElement_alt Let_def getElementById_def fold_attrStep_None applyAttribute_def)

lemma applyData_filter:
  "applyData pd d = applyData (filter (\<lambda>(el, attrs). el \<in> present d) pd) d"
proof (induction pd arbitrary: d)
  case Nil
  then show ?case by simp
next
  case (Cons p pd)
  obtain el attrs where p: "p = (el, attrs)" by (cases p)
  show ?case
  proof (cases "el \<in> present d")
    case True
    have pr: "present (applyElement el attrs d) = present d"
      using applyElement_onlyPresent [of d el attrs] by (simp add: onlyPresent_def)
    show ?thesis
      using True Cons.IH [of "applyElement el attrs d"] by (simp add: p applyData_Cons pr)
  next
    case False
    then show ?thesis using Cons.IH [of d] by (simp add: p applyData_Cons applyElement_missing)
  qed
qed

subsection \<open>The tables follow the writes\<close>

lemma lastStyle_append:
  "lastStyle (xs @ ys) el name =
     (case lastStyle ys el name of Some v \<Rightarrow> Some v | None \<Rightarrow> lastStyle xs el name)"
proof (induction xs)
  case Nil
  then show ?case by (simp split: option.splits)
next
  case (Cons x xs)
  then show ?case by (cases x) (simp_all split: option.splits)
qed

lemma lastAttribute_append:
  "lastAttribute (xs @ ys) el name =
     (case lastAttribute ys el name of Some v \<Rightarrow> Some v | None \<Rightarrow> lastAttribute xs el name)"
proof (induction xs)
  case Nil
  then show ?case by (simp split: option.splits)
next
  case (Cons x xs)
  then show ?case by (cases x) (simp_all split: option.splits)
qed

lemma tracks_refl: "tracks d d"
  by (simp add: tracks_def)

lemma tracks_trans:
  assumes "tracks d1 d2" and "tracks d2 d3"
  shows "tracks d1 d3"
proof -
  from assms(1) obtain ws1 where w1: "writes d2 = writes d1 @ ws1"
    and s1: "\<And>el name. style d2 el name =
              (case lastStyle ws1 el name of None \<Rightarrow> style d1 el name | Some v \<Rightarrow> Some v)"
    and a1: "\<And>el name. attribute d2 el name =
              (case lastAttribute ws1 el name of None \<Rightarrow> attribute d1 el name | Some v \<Rightarrow> Some v)"
    unfolding tracks_def by blast
  from assms(2) obtain ws2 where w2: "writes d3 = writes d2 @ ws2"
    and s2: "\<And>el name. style d3 el name =
              (case lastStyle ws2 el name of None \<Rightarrow> style d2 el name | Some v \<Rightarrow> Some v)"
    and a2: "\<And>el name. attribute d3 el name =
              (case lastAttribute ws2 el name of None \<Rightarrow> attribute d2 el name | Some v \<Rightarrow> Some v)"
    unfolding tracks_def by blast
  have w: "writes d3 = writes d1 @ (ws1 @ ws2)" using w1 w2 by simp
  have s: "\<forall>el name. style d3 el name =
      (case lastStyle (ws1 @ ws2) el name of None \<Rightarrow> style d1 el name | Some v \<Rightarrow> Some v)"
    by (simp add: s1 s2 lastStyle_append split: option.splits)
  have a: "\<forall>el name. attribute d3 el name =
      (case lastAttribute (ws1 @ ws2) el name of None \<Rightarrow> attribute d1 el name | Some v \<Rightarrow> Some v)"
    by (simp add: a1 a2 lastAttribute_append split: option.splits)
  show ?thesis unfolding tracks_def using w s a by blast
qed

lemma applyStyle_tracks: "tracks d (applyStyle name val element d)"
proof (cases element)
  case None
  then show ?thesis by (simp add: applyStyle_def tracks_refl)
next
  case (Some h)
  have "writes (applyStyle name val element d) = writes d @ [StyleWrite h name val]"
    by (simp add: applyStyle_def Some)
  moreover have "\<forall>el n. style (applyStyle name val element d) el n =
      (case lastStyle [StyleWrite h name val] el n of None \<Rightarrow> style d el n | Some v \<Rightarrow> Some v)"
    by (simp add: applyStyle_def Some)
  moreover have "\<forall>el n. attribute (applyStyle name val element d) el n =
      (case lastAttribute [StyleWrite h name val] el n of None \<Rightarrow> attribute d el n | Some v \<Rightarrow> Some v)"
    by (simp add: applyStyle_def Some)
  ultimately show ?thesis unfolding tracks_def by blast
qed

lemma applyAttribute_tracks: "tracks d (applyAttribute name val element d)"
proof (cases element)
  case None
  then show ?thesis by (simp add: applyAttribute_def tracks_refl)
next
  case (Some h)
  have "writes (applyAttribute name val element d) = writes d @ [AttrWrite h name val]"
    by (simp add: applyAttribute_def Some)
  moreover have "\<forall>el n. style (applyAttribute name val element d) el n =
      (case lastStyle [AttrWrite h name val] el n of None \<Rightarrow> style d el n | Some v \<Rightarrow> Some v)"
    by (simp add: applyAttribute_def Some)
  moreover have "\<forall>el n. attribute (applyAttribute name val element d) el n =
      (case lastAttribute [AttrWrite h name val] el n of None \<Rightarrow> attribute d el n | Some v \<Rightarrow> Some v)"
    by (simp add: applyAttribute_def Some)
  ultimately show ?thesis unfolding tracks_def by blast
qed

lemma attrStep_tracks: "tracks (snd (snd acc)) (snd (snd (attrStep element a acc)))"
proof -
  obtain tv td d where acc: "acc = (tv, td, d)" by (cases acc)
  obtain attr val where a: "a = (attr, val)" by (cases a)
  show ?thesis by (simp add: acc a applyStyle_tracks tracks_refl)
qed

lemma fold_attrStep_tracks:
  "tracks (snd (snd acc)) (snd (snd (fold (attrStep element) attrs acc)))"
proof (induction attrs arbitrary: acc)
  case Nil
  then show ?case by (simp add: tracks_refl)
next
  case (Cons a attrs)
  have "tracks (snd (snd acc)) (snd (snd (attrStep element a acc)))"
    by (rule attrStep_tracks)
  moreover have "tracks (snd (snd (attrStep element a acc)))
          (snd (snd (fold (attrStep element) attrs (attrStep element a acc))))"
    by (rule Cons.IH)
  ultimately have "tracks (snd (snd acc))
          (snd (snd (fold (attrStep element) attrs (attrStep element a acc))))"
    by (rule tracks_trans)
  then show ?case by simp
qed

lemma applyElement_tracks: "tracks d (applyElement el attrs d)"
proof -
  let ?e = "getElementById d el"
  let ?r = "fold (attrStep ?e) attrs ([], \<lparr>xval = None, yval = None\<rparr>, d)"
  have f: "tracks d (snd (snd ?r))"
    using fold_attrStep_tracks [of "([], \<lparr>xval = None, yval = None\<rparr>, d)" ?e attrs] by simp
  have "tracks (snd (snd ?r)) (applyAttribute ''transform'' tv ?e (snd (snd ?r)))" for tv
    by (rule applyAttribute_tracks)
  with f have "tracks d (applyAttribute ''transform'' tv ?e (snd (snd ?r)))" for tv
    using tracks_trans by blast
  with f show ?thesis by (simp add: applyElement_alt Let_def)
qed

lemma applyData_tracks: "tracks d (applyData pd d)"
proof (induction pd arbitrary: d)
  case Nil
  then show ?case by (simp add: applyData_def tracks_refl)
next
  case (Cons p pd)
  obtain el attrs where p: "p = (el, attrs)" by (cases p)
  have "tracks d (applyElement el attrs d)" by (rule applyElement_tracks)
  moreover have "tracks (applyElement el attrs d) (applyData pd (applyElement el attrs d))"
    by (rule Cons.IH)
  ultimately have "tracks d (applyData pd (applyElement el attrs d))" by (rule tracks_trans)
  then show ?case by (simp add: p applyData_Cons)
qed

lemma tracks_newWrites:
  assumes "tracks d d'"
  shows "(\<forall>el name. style d' el name =
            (case lastStyle (newWrites d d') el name of None \<Rightarrow> style d el name | Some v \<Rightarrow> Some v))
       \<and> (\<forall>el name. attribute d' el name =
            (case lastAttribute (newWrites d d') el name of None \<Rightarrow> attribute d el name | Some v \<Rightarrow> Some v))"
proof -
  from assms obtain ws where w: "writes d' = writes d @ ws"
    and s: "\<forall>el name. style d' el name =
              (case lastStyle ws el name of None \<Rightarrow> style d el name | Some v \<Rightarrow> Some v)"
    and a: "\<forall>el name. attribute d' el name =
              (case lastAttribute ws el name of None \<Rightarrow> attribute d el name | Some v \<Rightarrow> Some v)"
    unfolding tracks_def by blast
  have "newWrites d d' = ws" by (simp add: newWrites_def w)
  with s a show ?thesis by simp
qed

subsection \<open>The list with a lingering display value, evaluated\<close>

lemma threshold_lingering: "threshold (last lingering) = Num 400"
  by (simp add: lingering_def thresholds)

lemma ascending_lingering: "ascending lingering"
  by (auto simp: ascending_def lingering_def thresholds less_Suc_eq)

lemma defaultQueryOf_lingering: "defaultQueryOf lingering = Some (lingering ! 0)"
  by (simp add: defaultQueryOf_def lingering_def)

lemma process_lingering_300: "process lingering (Num 300) (emptyDom {''a''}) = Inr afterNarrow"
  by (simp add: afterNarrow_def lingering_def resolver_eval)

lemma afterNarrow_tables:
  "style afterNarrow ''a'' ''fill'' = Some ''blue''"
  "style afterNarrow ''a'' ''display'' = Some ''none''"
  "attribute afterNarrow ''a'' ''transform'' = Some ''translate(7,0)''"
  by (simp_all add: afterNarrow_def lingering_def emptyDom_def apply_eval Let_def)

lemma newWrites_default_afterNarrow:
  "newWrites afterNarrow (applyData (data (lingering ! 0)) afterNarrow) = [StyleWrite ''a'' ''fill'' ''red'']"
  by (simp add: newWrites_def afterNarrow_def lingering_def emptyDom_def apply_eval Let_def)

section \<open>Lemmas about the regular expression and the composer\<close>




lemma matchHere_Nil [simp]: "matchHere [] = None"
  by (simp add: matchHere_def)





















section \<open>The claims\<close>

subsection \<open>C1: the red and blue example\<close>

text \<open>
  C1, as the code has it. With the list of a default entry that fills element \<open>a\<close> red
  and an entry keyed \<open>>400\<close> that fills it blue, the entry keyed \<open>>400\<close> owns the widths
  between 0 and 400: a cycle at width 300 writes red and then blue (the fill ends
  blue), and a cycle at width 500 writes red only (the fill ends red).
\<close>

theorem C1_redBlue_by_width:
  "writesOf (process redBlue (Num 300) (emptyDom {''a''}))
     = Some [StyleWrite ''a'' ''fill'' ''red'', StyleWrite ''a'' ''fill'' ''blue'']
   \<and> styleOf (process redBlue (Num 300) (emptyDom {''a''})) ''a'' ''fill'' = Some ''blue''
   \<and> writesOf (process redBlue (Num 500) (emptyDom {''a''}))
     = Some [StyleWrite ''a'' ''fill'' ''red'']
   \<and> styleOf (process redBlue (Num 500) (emptyDom {''a''})) ''a'' ''fill'' = Some ''red''"
  by (simp add: redBlue_def emptyDom_def writesOf_def styleOf_def resolver_eval apply_eval)

text \<open>
  C1, as the specification words it, fails: at width 300 the cycle does not stop at
  the red fill, and at width 500 the fill that is left is not blue.
\<close>

theorem C1_counterexample:
  "writesOf (process redBlue (Num 300) (emptyDom {''a''})) \<noteq> Some [StyleWrite ''a'' ''fill'' ''red'']
   \<and> styleOf (process redBlue (Num 500) (emptyDom {''a''})) ''a'' ''fill'' \<noteq> Some ''blue''"
  by (simp add: redBlue_def emptyDom_def writesOf_def styleOf_def resolver_eval apply_eval)

subsection \<open>C2: a translate token followed by other transform functions\<close>

text \<open>
  C2, evaluated on the code. The claim asks that composing \<open>translate(1,1) scale(2)\<close>
  with \<open>translate(10,5)\<close> gives \<open>translate(10,5) scale(2)\<close>. The greedy \<^verbatim>\<open>.*\<close> of the
  regular expression runs to the last closing parenthesis of the line, so the match
  swallows \<open>scale(2)\<close>: the composed value, and the attribute that \<^verbatim>\<open>applyData\<close> writes, is
  \<open>translate(10,5)\<close> alone.
\<close>

theorem C2_greedy_replace:
  "composeTransform ''translate(1,1) scale(2)'' (Some ''translate(10,5)'') = ''translate(10,5)''
   \<and> writes (applyData [(''a'', [(''transform'', ''translate(1,1) scale(2)''), (''x'', ''10''), (''y'', ''5'')])]
        (emptyDom {''a''})) = [AttrWrite ''a'' ''transform'' ''translate(10,5)'']"
  by (simp add: emptyDom_def apply_eval indexOf_def replace_def matchHere_def isLineTerminator_def Let_def)

subsection \<open>C3: the outcomes of one cycle\<close>

text \<open>
  C3, amended. For a non-empty list, a width that lies in no entry's bounds and is not
  above the threshold of the last entry leaves the document as it was. If moreover the
  list has a default entry, its thresholds ascend and no default entry sits between two
  other entries, then a cycle does one of three things. When no entry's bounds hold the
  width, it applies nothing (width not above the last threshold) or the default's data
  alone (width above the last threshold). Otherwise exactly one entry's bounds hold the
  width, that entry is not a default, and the cycle applies the default's data
  followed by the data of that entry.
\<close>

theorem C3_outcomes:
  assumes ne: "qs \<noteq> []"
  shows "((\<forall>i \<in> set [0..<length qs]. \<not> inRange qs w i) \<and> \<not> js_gt w (threshold (last qs))
            \<longrightarrow> process qs w d = Inr d)
       \<and> (\<forall>dq. defaultQueryOf qs = Some dq \<and> ascending qs \<and> defaultNotBetween qs \<longrightarrow>
             ((\<forall>i \<in> set [0..<length qs]. \<not> inRange qs w i) \<and> \<not> js_gt w (threshold (last qs))
                \<and> process qs w d = Inr d)
           \<or> ((\<forall>i \<in> set [0..<length qs]. \<not> inRange qs w i) \<and> js_gt w (threshold (last qs))
                \<and> process qs w d = Inr (applyData (data dq) d))
           \<or> (\<exists>i \<in> set [0..<length qs]. query (qs ! i) \<noteq> ''default'' \<and> inRange qs w i
                 \<and> (\<forall>k \<in> set [0..<length qs]. k \<noteq> i \<longrightarrow> \<not> inRange qs w k)
                 \<and> process qs w d = Inr (applyData (data (qs ! i)) (applyData (data dq) d))))"
proof (intro conjI impI allI)
  assume "(\<forall>i \<in> set [0..<length qs]. \<not> inRange qs w i) \<and> \<not> js_gt w (threshold (last qs))"
  then show "process qs w d = Inr d"
    using ne by (intro process_gap) auto
next
  fix dq
  assume h: "defaultQueryOf qs = Some dq \<and> ascending qs \<and> defaultNotBetween qs"
  show "((\<forall>i \<in> set [0..<length qs]. \<not> inRange qs w i) \<and> \<not> js_gt w (threshold (last qs))
                \<and> process qs w d = Inr d)
           \<or> ((\<forall>i \<in> set [0..<length qs]. \<not> inRange qs w i) \<and> js_gt w (threshold (last qs))
                \<and> process qs w d = Inr (applyData (data dq) d))
           \<or> (\<exists>i \<in> set [0..<length qs]. query (qs ! i) \<noteq> ''default'' \<and> inRange qs w i
                 \<and> (\<forall>k \<in> set [0..<length qs]. k \<noteq> i \<longrightarrow> \<not> inRange qs w k)
                 \<and> process qs w d = Inr (applyData (data (qs ! i)) (applyData (data dq) d)))"
  proof (cases "\<exists>i < length qs. inRange qs w i")
    case True
    then obtain i where i: "i < length qs" and m: "inRange qs w i" by blast
    have p: "process qs w d = Inr (applyData (data (qs ! i)) (applyData (data dq) d))"
      using h i m process_matched by blast
    have nd: "query (qs ! i) \<noteq> ''default''" using m inRange_default by blast
    have u: "\<forall>k \<in> set [0..<length qs]. k \<noteq> i \<longrightarrow> \<not> inRange qs w k"
      using h i m inRange_only by auto
    have "i \<in> set [0..<length qs]" using i by simp
    with p nd u m show ?thesis by blast
  next
    case False
    then have none: "\<And>i. i < length qs \<Longrightarrow> \<not> inRange qs w i" by blast
    then have all: "\<forall>i \<in> set [0..<length qs]. \<not> inRange qs w i" by simp
    show ?thesis
    proof (cases "js_gt w (threshold (last qs))")
      case True
      have "process qs w d = Inr (applyData (data dq) d)"
        using h none True process_above by blast
      with all True show ?thesis by blast
    next
      case False
      have "process qs w d = Inr d" using ne none False process_gap by blast
      with all False show ?thesis by blast
    qed
  qed
qed

text \<open>
  The amended C3 at the list default, \<open>>400\<close>, \<open>>800\<close>: width 500 for the three
  outcomes, and width 400, which lies in no range and is not above 800, for the gap.
\<close>

theorem C3_outcomes_witness:
  "threeStep \<noteq> [] \<and> defaultQueryOf threeStep = Some (threeStep ! 0)
   \<and> ascending threeStep \<and> defaultNotBetween threeStep
   \<and> writesOf (process threeStep (Num 500) (emptyDom {''a''}))
       \<in> {Some [], Some [StyleWrite ''a'' ''fill'' ''red''],
          Some [StyleWrite ''a'' ''fill'' ''red'', StyleWrite ''a'' ''fill'' ''blue''],
          Some [StyleWrite ''a'' ''fill'' ''red'', StyleWrite ''a'' ''fill'' ''green'']}
   \<and> \<not> inRange threeStep (Num 400) 0 \<and> \<not> inRange threeStep (Num 400) 1
   \<and> \<not> inRange threeStep (Num 400) 2 \<and> \<not> js_gt (Num 400) (threshold (last threeStep))
   \<and> process threeStep (Num 400) (emptyDom {''a''}) = Inr (emptyDom {''a''})"
proof -
  have ne: "threeStep \<noteq> []" by (simp add: threeStep_def)
  have len: "[0..<length threeStep] = [0, 1, 2]" by (simp add: threeStep_def upt_rec)
  note c = C3_outcomes [OF ne, of "Num 500" "emptyDom {''a''}", THEN conjunct2, rule_format,
      of "threeStep ! 0"]
  have "process threeStep (Num 500) (emptyDom {''a''}) = Inr (emptyDom {''a''})
       \<or> process threeStep (Num 500) (emptyDom {''a''})
            = Inr (applyData (data (threeStep ! 0)) (emptyDom {''a''}))
       \<or> (\<exists>i \<in> set [0..<length threeStep]. query (threeStep ! i) \<noteq> ''default'' \<and>
             process threeStep (Num 500) (emptyDom {''a''})
               = Inr (applyData (data (threeStep ! i)) (applyData (data (threeStep ! 0)) (emptyDom {''a''}))))"
    using c defaultQueryOf_threeStep ascending_threeStep defaultNotBetween_threeStep by blast
  then have a: "writesOf (process threeStep (Num 500) (emptyDom {''a''}))
       \<in> {Some [], Some [StyleWrite ''a'' ''fill'' ''red''],
          Some [StyleWrite ''a'' ''fill'' ''red'', StyleWrite ''a'' ''fill'' ''blue''],
          Some [StyleWrite ''a'' ''fill'' ''red'', StyleWrite ''a'' ''fill'' ''green'']}"
    unfolding len by (auto simp: threeStep_def emptyDom_def writesOf_def apply_eval)
  have g: "\<not> inRange threeStep (Num 400) 0" "\<not> inRange threeStep (Num 400) 1"
    "\<not> inRange threeStep (Num 400) 2" "\<not> js_gt (Num 400) (threshold (last threeStep))"
    by (simp_all add: threeStep_def inRange_def maxv_queryData minv_queryData thresholds)
  have b: "process threeStep (Num 400) (emptyDom {''a''}) = Inr (emptyDom {''a''})"
    using C3_outcomes [OF ne, of "Num 400" "emptyDom {''a''}", THEN conjunct1] g
    unfolding len by simp
  show ?thesis
    using ne defaultQueryOf_threeStep ascending_threeStep defaultNotBetween_threeStep a g b by simp
qed

text \<open>
  C3 as stated fails when the default entry sits between two other entries, although
  the thresholds ascend: for \<open>>300\<close>, default, \<open>>500\<close> the third entry gets the lower
  bound 0, and at width 200 both \<open>>300\<close> and \<open>>500\<close> are applied in one cycle.
\<close>

theorem C3_counterexample:
  "writesOf (process overlapping (Num 200) (emptyDom {''a''}))
     = Some [StyleWrite ''a'' ''fill'' ''red'', StyleWrite ''a'' ''fill'' ''blue'',
             StyleWrite ''a'' ''fill'' ''red'', StyleWrite ''a'' ''fill'' ''green'']"
  by (simp add: overlapping_def emptyDom_def writesOf_def resolver_eval apply_eval)

subsection \<open>C4: the bounds of an entry\<close>

text \<open>
  C4, amended. For an entry other than the default, the upper bound is the number
  parsed from its own key after the first character; the lower bound is 0 when the
  entry is first in the list or directly follows a default entry, and the threshold of
  the entry directly before it otherwise. In particular, when the entry directly
  before it is not a default entry either, the lower bound equals that entry's upper
  bound (range continuity).
\<close>

theorem C4_bounds:
  assumes i: "i < length qs" and nd: "query (qs ! i) \<noteq> ''default''"
  shows "maxv (queryData qs i) = threshold (qs ! i)
       \<and> minv (queryData qs i) =
           (if i = 0 \<or> query (qs ! (i - 1)) = ''default'' then Num 0 else threshold (qs ! (i - 1)))
       \<and> (0 < i \<and> query (qs ! (i - 1)) \<noteq> ''default''
            \<longrightarrow> minv (queryData qs i) = maxv (queryData qs (i - 1)))"
  using nd by (simp add: maxv_queryData minv_queryData)

text \<open>The amended C4 at the third entry of default, \<open>>400\<close>, \<open>>800\<close>.\<close>

theorem C4_bounds_witness:
  "(2::nat) < length threeStep \<and> query (threeStep ! 2) \<noteq> ''default''
   \<and> maxv (queryData threeStep 2) = Num 800 \<and> minv (queryData threeStep 2) = Num 400
   \<and> minv (queryData threeStep 2) = maxv (queryData threeStep 1)"
proof -
  have i: "(2::nat) < length threeStep" by (simp add: threeStep_def)
  have nd: "query (threeStep ! 2) \<noteq> ''default''" by (simp add: threeStep_def)
  show ?thesis
    using i nd C4_bounds [OF i nd] by (simp add: threeStep_def thresholds maxv_queryData)
qed

text \<open>
  C4 as stated fails: in \<open>>300\<close>, default, \<open>>500\<close> the entry before the default has
  threshold 300, yet the lower bound of the third entry is 0: the default entry is not
  skipped when the lower bound is computed.
\<close>

theorem C4_counterexample:
  "query (overlapping ! 0) \<noteq> ''default'' \<and> query (overlapping ! 1) = ''default''
   \<and> query (overlapping ! 2) \<noteq> ''default''
   \<and> threshold (overlapping ! 0) = Num 300
   \<and> minv (queryData overlapping 2) = Num 0
   \<and> minv (queryData overlapping 2) \<noteq> threshold (overlapping ! 0)"
  by (simp add: overlapping_def minv_queryData thresholds)

subsection \<open>C5: a key that does not parse\<close>

text \<open>
  C5, amended. When the text after the first character of an entry's key is not
  numeric, \<^verbatim>\<open>parseInt\<close> returns \<open>NaN\<close> and nothing is raised: at every width the loop
  step of that entry leaves the document unchanged and does not fail, and when the
  entry is the last one the fallback for widths above the last threshold does not fire
  and does not fail either.
\<close>

theorem C5_unparsed_never_matches:
  assumes i: "i < length qs" and nd: "query (qs ! i) \<noteq> ''default''"
    and nn: "nonNumeric (substr (query (qs ! i)) 1)"
  shows "threshold (qs ! i) = NaN
       \<and> processQuery qs dq w i d = Inr d
       \<and> (Suc i = length qs \<longrightarrow>
            applyContainerQuery \<lparr>minv = NaN, maxv = threshold (last qs)\<rparr> (last qs) dq True w d = Inr d)"
proof (intro conjI impI)
  show nan: "threshold (qs ! i) = NaN" using nn by (rule threshold_nonNumeric)
  have "\<not> inRange qs w i" using nd nan by (simp add: inRange_def maxv_queryData)
  then show "processQuery qs dq w i d = Inr d" by (rule processQuery_out)
  assume l: "Suc i = length qs"
  then have "qs \<noteq> []" by auto
  then have "last qs = qs ! i" using l [symmetric] by (simp add: last_conv_nth)
  then show "applyContainerQuery \<lparr>minv = NaN, maxv = threshold (last qs)\<rparr> (last qs) dq True w d = Inr d"
    using nan by (simp add: applyContainerQuery_def)
qed

text \<open>The amended C5 at the list default, \<open>>abc\<close> and width 300.\<close>

theorem C5_unparsed_never_matches_witness:
  "(1::nat) < length malformed \<and> query (malformed ! 1) \<noteq> ''default''
   \<and> nonNumeric (substr (query (malformed ! 1)) 1)
   \<and> threshold (malformed ! 1) = NaN
   \<and> processQuery malformed (defaultQueryOf malformed) (Num 300) 1 (emptyDom {''a''})
       = Inr (emptyDom {''a''})
   \<and> applyContainerQuery \<lparr>minv = NaN, maxv = threshold (last malformed)\<rparr> (last malformed)
         (defaultQueryOf malformed) True (Num 300) (emptyDom {''a''}) = Inr (emptyDom {''a''})"
proof -
  have i: "(1::nat) < length malformed" by (simp add: malformed_def)
  have nd: "query (malformed ! 1) \<noteq> ''default''" by (simp add: malformed_def)
  have nn: "nonNumeric (substr (query (malformed ! 1)) 1)"
    using nonNumeric_abc by (simp add: malformed_def)
  have l: "Suc 1 = length malformed" by (simp add: malformed_def)
  show ?thesis
    using i nd nn l
      C5_unparsed_never_matches [OF i nd nn, of "defaultQueryOf malformed" "Num 300" "emptyDom {''a''}"]
    by simp
qed

text \<open>
  C5 as stated fails: with the key \<open>>abc\<close> in the list, a cycle at width 300 returns
  normally, with the document untouched; no parse failure reaches the caller.
\<close>

theorem C5_counterexample:
  "process malformed (Num 300) (emptyDom {''a''}) = Inr (emptyDom {''a''})"
  by (simp add: malformed_def resolver_eval upt_rec)

subsection \<open>C6: both bounds are exclusive\<close>



subsection \<open>C7: above the last threshold\<close>

text \<open>
  C7, amended. For a list with a default entry and ascending thresholds, at every
  width strictly greater than the threshold of the last entry the cycle applies the
  data of the default entry and nothing else, to the document as earlier cycles left
  it. The style properties and attributes that the writes of the default's data name
  end with the value written last; every other style property and attribute keeps the
  value it had, also when a previously matched entry had set it.
\<close>

theorem C7_above_last:
  assumes dq: "defaultQueryOf qs = Some dq" and asc: "ascending qs"
    and gt: "js_gt w (threshold (last qs))"
  shows "process qs w d = Inr (applyData (data dq) d)
       \<and> (\<forall>el name. style (applyData (data dq) d) el name =
            (case lastStyle (newWrites d (applyData (data dq) d)) el name of
               None \<Rightarrow> style d el name | Some v \<Rightarrow> Some v))
       \<and> (\<forall>el name. attribute (applyData (data dq) d) el name =
            (case lastAttribute (newWrites d (applyData (data dq) d)) el name of
               None \<Rightarrow> attribute d el name | Some v \<Rightarrow> Some v))"
proof -
  have "\<And>i. i < length qs \<Longrightarrow> \<not> inRange qs w i"
    using asc gt inRange_not_above_last by blast
  then have "process qs w d = Inr (applyData (data dq) d)"
    using dq gt by (intro process_above)
  moreover have "tracks d (applyData (data dq) d)" by (rule applyData_tracks)
  ultimately show ?thesis using tracks_newWrites by blast
qed

text \<open>
  The amended C7 at the list default (fill red), \<open>>400\<close> (fill blue, display none,
  x 7) and width 500, in the document that a cycle at width 300 left: the one new write
  sets the fill to red, the display value and the transform attribute stay.
\<close>

theorem C7_above_last_witness:
  "defaultQueryOf lingering = Some (lingering ! 0) \<and> ascending lingering
   \<and> js_gt (Num 500) (threshold (last lingering))
   \<and> process lingering (Num 500) afterNarrow = Inr (applyData (data (lingering ! 0)) afterNarrow)
   \<and> newWrites afterNarrow (applyData (data (lingering ! 0)) afterNarrow) = [StyleWrite ''a'' ''fill'' ''red'']
   \<and> style afterNarrow ''a'' ''fill'' = Some ''blue''
   \<and> style (applyData (data (lingering ! 0)) afterNarrow) ''a'' ''fill'' = Some ''red''
   \<and> style (applyData (data (lingering ! 0)) afterNarrow) ''a'' ''display'' = Some ''none''
   \<and> attribute (applyData (data (lingering ! 0)) afterNarrow) ''a'' ''transform'' = Some ''translate(7,0)''"
proof -
  have gt: "js_gt (Num 500) (threshold (last lingering))"
    by (simp add: threshold_lingering)
  note c = C7_above_last [OF defaultQueryOf_lingering ascending_lingering gt, of afterNarrow]
  have s: "style (applyData (data (lingering ! 0)) afterNarrow) ''a'' ''fill'' = Some ''red''"
    "style (applyData (data (lingering ! 0)) afterNarrow) ''a'' ''display'' = Some ''none''"
    using c by (simp_all add: newWrites_default_afterNarrow afterNarrow_tables)
  have a: "attribute (applyData (data (lingering ! 0)) afterNarrow) ''a'' ''transform'' = Some ''translate(7,0)''"
    using c by (simp add: newWrites_default_afterNarrow afterNarrow_tables)
  show ?thesis
    using c gt defaultQueryOf_lingering ascending_lingering s a
    by (simp add: newWrites_default_afterNarrow afterNarrow_tables)
qed

text \<open>
  C7 as stated fails in its second half: the cycle above the last threshold does not
  revert what a previously matched entry set. From the empty document a cycle at width
  500 alone leaves no display value and no transform attribute on \<open>a\<close>; after a cycle
  at width 300 the cycle at width 500 leaves display none and \<open>translate(7,0)\<close> in place.
\<close>

theorem C7_counterexample:
  "js_gt (Num 500) (threshold (last lingering))
   \<and> styleOf (cycles lingering [Num 500] (emptyDom {''a''})) ''a'' ''display'' = None
   \<and> attributeOf (cycles lingering [Num 500] (emptyDom {''a''})) ''a'' ''transform'' = None
   \<and> styleOf (cycles lingering [Num 300, Num 500] (emptyDom {''a''})) ''a'' ''display'' = Some ''none''
   \<and> attributeOf (cycles lingering [Num 300, Num 500] (emptyDom {''a''})) ''a'' ''transform''
       = Some ''translate(7,0)''"
proof -
  have gt: "js_gt (Num 500) (threshold (last lingering))"
    by (simp add: threshold_lingering)
  have p1: "process lingering (Num 500) (emptyDom {''a''})
              = Inr (applyData (data (lingering ! 0)) (emptyDom {''a''}))"
    using defaultQueryOf_lingering ascending_lingering gt by (intro process_above) 
      (auto dest: inRange_not_above_last)
  have p2: "process lingering (Num 500) afterNarrow = Inr (applyData (data (lingering ! 0)) afterNarrow)"
    using defaultQueryOf_lingering ascending_lingering gt by (intro process_above)
      (auto dest: inRange_not_above_last)
  have e: "style (applyData (data (lingering ! 0)) (emptyDom {''a''})) ''a'' ''display'' = None"
    "attribute (applyData (data (lingering ! 0)) (emptyDom {''a''})) ''a'' ''transform'' = None"
    by (simp_all add: lingering_def emptyDom_def apply_eval)
  have n: "style (applyData (data (lingering ! 0)) afterNarrow) ''a'' ''display'' = Some ''none''"
    "attribute (applyData (data (lingering ! 0)) afterNarrow) ''a'' ''transform'' = Some ''translate(7,0)''"
    by (simp_all add: afterNarrow_def lingering_def emptyDom_def apply_eval Let_def)
  show ?thesis
    using gt e n by (simp add: p1 p2 process_lingering_300 styleOf_def attributeOf_def)
qed

subsection \<open>C8: element ids that do not resolve\<close>

text \<open>
  C8. Applying a patch set gives the same document as applying it with every id that
  does not resolve removed: such an id is skipped and the ids after it are processed
  as usual. The set of resolving ids is unchanged, the style and attribute tables of an
  id that does not resolve are untouched, and every write that is made goes to an id
  that resolves. \<^verbatim>\<open>applyData\<close> is a total function: it has no failure to raise.
\<close>

theorem C8_missing_elements_skipped:
  "applyData pd d = applyData (filter (\<lambda>(el, attrs). el \<in> present d) pd) d
   \<and> present (applyData pd d) = present d
   \<and> (\<forall>el. el \<notin> present d \<longrightarrow>
         style (applyData pd d) el = style d el \<and> attribute (applyData pd d) el = attribute d el)
   \<and> (\<exists>ws. writes (applyData pd d) = writes d @ ws \<and> (\<forall>w \<in> set ws. target w \<in> present d))"
  using applyData_filter [of pd d] applyData_onlyPresent [of d pd]
  by (simp add: onlyPresent_def)

text \<open>C8 at a patch set that names the missing id \<open>ghost\<close> before the id \<open>a\<close>.\<close>

theorem C8_missing_elements_skipped_witness:
  "''ghost'' \<notin> present (emptyDom {''a''})
   \<and> applyData ghostPatch (emptyDom {''a''}) = applyData [(''a'', [(''fill'', ''blue'')])] (emptyDom {''a''})
   \<and> writes (applyData ghostPatch (emptyDom {''a''})) = [StyleWrite ''a'' ''fill'' ''blue'']
   \<and> style (applyData ghostPatch (emptyDom {''a''})) ''ghost'' ''fill'' = None
   \<and> attribute (applyData ghostPatch (emptyDom {''a''})) ''ghost'' ''transform'' = None"
proof -
  note c = C8_missing_elements_skipped [of ghostPatch "emptyDom {''a''}"]
  have g: "''ghost'' \<notin> present (emptyDom {''a''})" by (simp add: emptyDom_def)
  have f: "filter (\<lambda>(el, attrs). el \<in> present (emptyDom {''a''})) ghostPatch
             = [(''a'', [(''fill'', ''blue'')])]"
    by (simp add: ghostPatch_def emptyDom_def)
  have e: "applyData ghostPatch (emptyDom {''a''}) = applyData [(''a'', [(''fill'', ''blue'')])] (emptyDom {''a''})"
    using c f by simp
  have w: "writes (applyData [(''a'', [(''fill'', ''blue'')])] (emptyDom {''a''})) = [StyleWrite ''a'' ''fill'' ''blue'']"
    by (simp add: emptyDom_def apply_eval)
  have s: "style (applyData ghostPatch (emptyDom {''a''})) ''ghost'' = style (emptyDom {''a''}) ''ghost''"
    "attribute (applyData ghostPatch (emptyDom {''a''})) ''ghost'' = attribute (emptyDom {''a''}) ''ghost''"
    using c g by blast+
  show ?thesis using g e w s by (simp add: emptyDom_def)
qed

subsection \<open>C9: composing twice\<close>



subsection \<open>C10: a cycle does not fail\<close>

text \<open>
  C10. For a non-empty list that holds an entry keyed \<open>default\<close>, a cycle returns
  normally at every width. A key whose text after the first character is not numeric
  has the threshold \<open>NaN\<close>; every comparison with \<open>NaN\<close> is false, so a call of
  \<^verbatim>\<open>applyContainerQuery\<close> whose upper bound is \<open>NaN\<close> leaves the document unchanged in
  both of its modes.
\<close>

theorem C10_process_total:
  assumes ne: "qs \<noteq> []" and dflt: "\<exists>q \<in> set qs. query q = ''default''"
  shows "(\<exists>d'. process qs w d = Inr d')
       \<and> (\<forall>q. nonNumeric (substr (query q) 1) \<longrightarrow> threshold q = NaN)
       \<and> js_gt w NaN = False \<and> js_lt w NaN = False \<and> js_gt NaN w = False \<and> js_lt NaN w = False
       \<and> (\<forall>b q isLast. maxv b = NaN \<longrightarrow>
            applyContainerQuery b q (defaultQueryOf qs) isLast w d = Inr d)"
proof (intro conjI allI impI)
  obtain dq where dq: "defaultQueryOf qs = Some dq"
    using dflt defaultQueryOf_ex by blast
  have "\<And>i d. \<exists>d'. processQuery qs (Some dq) w i d = Inr d'"
    by (simp add: processQuery_step)
  then obtain d1 where "forEach (processQuery qs (Some dq) w) [0..<length qs] d = Inr d1"
    using forEach_total by blast
  then show "\<exists>d'. process qs w d = Inr d'"
    using ne dq by (simp add: process_unfold last_step)
next
  fix b :: bounds and q isLast
  assume "maxv b = NaN"
  then show "applyContainerQuery b q (defaultQueryOf qs) isLast w d = Inr d"
    by (simp add: applyContainerQuery_def)
next
  fix q :: variation
  assume "nonNumeric (substr (query q) 1)"
  then show "threshold q = NaN" by (rule threshold_nonNumeric)
qed simp_all

text \<open>C10 at the list default, \<open>>abc\<close> and width 300.\<close>

theorem C10_process_total_witness:
  "malformed \<noteq> [] \<and> malformed ! 0 \<in> set malformed \<and> query (malformed ! 0) = ''default''
   \<and> (\<exists>d'. process malformed (Num 300) (emptyDom {''a''}) = Inr d')
   \<and> nonNumeric (substr (query (malformed ! 1)) 1) \<and> threshold (malformed ! 1) = NaN
   \<and> applyContainerQuery (queryData malformed 1) (malformed ! 1) (defaultQueryOf malformed) False
        (Num 300) (emptyDom {''a''}) = Inr (emptyDom {''a''})"
proof -
  have ne: "malformed \<noteq> []" by (simp add: malformed_def)
  have m: "malformed ! 0 \<in> set malformed" "query (malformed ! 0) = ''default''"
    by (simp_all add: malformed_def)
  then have ex: "\<exists>q \<in> set malformed. query q = ''default''" by blast
  have nn: "nonNumeric (substr (query (malformed ! 1)) 1)"
    using nonNumeric_abc by (simp add: malformed_def)
  note c = C10_process_total [OF ne ex, of "Num 300" "emptyDom {''a''}"]
  have nan: "threshold (malformed ! 1) = NaN" using c nn by blast
  have mx: "maxv (queryData malformed 1) = NaN"
    using nan by (simp add: malformed_def maxv_queryData)
  show ?thesis
    using ne m nn nan mx c by simp
qed

end
